theory Spec2Isabelle
  imports Main
begin

section \<open>The quote API: a shallow embedding of \<open>main.go\<close>\<close>

text \<open>
  The program is one HTTP handler, \<open>quoteHandler\<close>, and \<open>main\<close>, which registers it on
  the pattern \<open>/\<close> and starts the server. Go strings are byte sequences and are modelled as
  \<open>string\<close> (a list of 8-bit \<open>char\<close>). Go's \<open>int\<close> and \<open>int64\<close> values (the length of the
  slice, the index, the clock reading) are modelled as \<open>int\<close>: the program performs no
  arithmetic on them.
\<close>

subsection \<open>Panics and slice indexing\<close>

datatype panic =
    IndexOutOfRange int nat   \<comment> \<open>\<open>runtime error: index out of range [i] with length n\<close>\<close>
  | InvalidArgument string    \<comment> \<open>a library function rejecting its argument\<close>

definition index_go :: "'a list \<Rightarrow> int \<Rightarrow> panic + 'a" where
  "index_go xs i =
     (if 0 \<le> i \<and> i < int (length xs) then Inr (xs ! nat i)
      else Inl (IndexOutOfRange i (length xs)))"

subsection \<open>The global generator of \<open>math/rand\<close>\<close>

text \<open>
  \<open>math/rand\<close> is not part of the repository. Its generator is a parameter of the model:
  \<open>seeded s\<close> is the state that \<open>rand.Seed(s)\<close> installs (the documentation: ``Seed uses
  the provided seed value to initialize the default Source to a deterministic state''), and
  \<open>intn g n\<close> is the value that \<open>rand.Intn(n)\<close> returns in state \<open>g\<close> for \<open>n > 0\<close>,
  with the state it leaves. \<open>rand.Intn\<close> panics when \<open>n \<le> 0\<close>. The world also records the
  calls made on the generator, in order.
\<close>

record 'g rand_source =
  seeded :: "int \<Rightarrow> 'g"
  intn :: "'g \<Rightarrow> int \<Rightarrow> int \<times> 'g"

datatype rand_call = SeedCall int | IntnCall int

record 'g world =
  rng :: 'g
  rand_calls :: "rand_call list"

definition rand_Seed :: "'g rand_source \<Rightarrow> int \<Rightarrow> 'g world \<Rightarrow> 'g world" where
  "rand_Seed L s w = w\<lparr>rng := seeded L s, rand_calls := rand_calls w @ [SeedCall s]\<rparr>"

definition rand_Intn :: "'g rand_source \<Rightarrow> int \<Rightarrow> 'g world \<Rightarrow> (panic + int) \<times> 'g world" where
  "rand_Intn L n w =
     (let w1 = w\<lparr>rand_calls := rand_calls w @ [IntnCall n]\<rparr>
      in if n \<le> 0 then (Inl (InvalidArgument ''invalid argument to Intn''), w1)
         else (case intn L (rng w) n of (v, g) \<Rightarrow> (Inr v, w1\<lparr>rng := g\<rparr>)))"

text \<open>The documented contract of \<open>rand.Intn\<close>: for \<open>n > 0\<close> the result lies in \<open>[0, n)\<close>.\<close>

definition rand_ok :: "'g rand_source \<Rightarrow> bool" where
  "rand_ok L = (\<forall>g n. 0 < n \<longrightarrow> 0 \<le> fst (intn L g n) \<and> fst (intn L g n) < n)"

text \<open>
  Two concrete generators. The first is a linear congruential generator, used to evaluate
  the model. The second takes the draw as an input: \<open>draw_at N d\<close> is the generator whose
  \<open>Intn\<close> returns \<open>d\<close> when it is asked for the bound \<open>N\<close>, and \<open>0\<close> when it is asked for any
  other bound; it keeps the contract of \<open>rand.Intn\<close> exactly when \<open>d\<close> lies in \<open>[0, N)\<close>.
\<close>

definition lcg :: "nat rand_source" where
  "lcg = \<lparr>seeded = (\<lambda>s. nat \<bar>s\<bar> mod 2147483648),
          intn = (\<lambda>g n. (int g mod n, (g * 1103515245 + 12345) mod 2147483648))\<rparr>"

definition draw_at :: "int \<Rightarrow> int \<Rightarrow> unit rand_source" where
  "draw_at N d = \<lparr>seeded = (\<lambda>s. ()), intn = (\<lambda>g n. (if n = N then d else 0, ()))\<rparr>"

subsection \<open>Requests and the response writer of \<open>net/http\<close>\<close>

record request =
  req_method :: string
  req_path :: string
  req_header :: "(string \<times> string) list"
  req_body :: string

text \<open>
  The \<open>http.ResponseWriter\<close>: the header map the handler edits, the status line and headers
  as committed by the first write (\<open>Write\<close> calls \<open>WriteHeader(200)\<close> when nothing was
  committed before; later edits of the header map are not sent), and the bytes written.
  \<open>Header().Set\<close> stores the key in canonical form; \<open>Content-Type\<close> is canonical already.
\<close>

record response_writer =
  header :: "string \<rightharpoonup> string list"
  wrote_header :: "(nat \<times> (string \<rightharpoonup> string list)) option"
  body :: string

definition new_response :: response_writer where
  "new_response = \<lparr>header = Map.empty, wrote_header = None, body = []\<rparr>"

definition Header_Set :: "string \<Rightarrow> string \<Rightarrow> response_writer \<Rightarrow> response_writer" where
  "Header_Set k v rw = rw\<lparr>header := (header rw)(k \<mapsto> [v])\<rparr>"

definition Write :: "string \<Rightarrow> response_writer \<Rightarrow> response_writer" where
  "Write bs rw =
     (let rw1 = (case wrote_header rw of
                   None \<Rightarrow> rw\<lparr>wrote_header := Some (200, header rw)\<rparr>
                 | Some c \<Rightarrow> rw)
      in rw1\<lparr>body := body rw1 @ bs\<rparr>)"

subsection \<open>\<open>fmt\<close>: the verb \<open>%s\<close>\<close>

text \<open>
  \<open>%s\<close> copies the bytes of its string operand unchanged; every other byte of the format
  is copied as it is. A \<open>%s\<close> without an operand prints \<open>%!s(MISSING)\<close>.
\<close>

fun Sprintf :: "string \<Rightarrow> string list \<Rightarrow> string" where
  "Sprintf [] args = []"
| "Sprintf [c] args = [c]"
| "Sprintf (c # d # fs) args =
     (if c = CHR ''%'' \<and> d = CHR ''s'' then
        (case args of
           [] \<Rightarrow> ''%!s(MISSING)'' @ Sprintf fs []
         | a # as \<Rightarrow> a @ Sprintf fs as)
      else c # Sprintf (d # fs) args)"

definition Fprintf :: "response_writer \<Rightarrow> string \<Rightarrow> string list \<Rightarrow> response_writer" where
  "Fprintf rw format args = Write (Sprintf format args) rw"

subsection \<open>The handler\<close>

definition quotes :: "string list" where
  "quotes =
     [''The only way to do great work is to love what you do. - Steve Jobs'',
      ''The future belongs to those who believe in the beauty of their dreams. - Eleanor Roosevelt'',
      ''It does not matter how slowly you go as long as you do not stop. - Confucius'',
      ''Success is not final, failure is not fatal: it is the courage to continue that counts. - Winston Churchill'',
      ''Believe you can and you'' @ [CHR 0x27] @ ''re halfway there. - Theodore Roosevelt'']"

definition quote_format :: string where
  \<open>quote_format = ''{"quote": "%s"}''\<close>

text \<open>
  Lines 19 to 22: \<open>rand.Seed(time.Now().UnixNano())\<close>, then
  \<open>quotes[rand.Intn(len(quotes))]\<close>. The clock reading \<open>now\<close> is an input.
\<close>

definition randomQuote ::
  "'g rand_source \<Rightarrow> string list \<Rightarrow> int \<Rightarrow> 'g world \<Rightarrow> (panic + string) \<times> 'g world" where
  "randomQuote L qs now w =
     (case rand_Intn L (int (length qs)) (rand_Seed L now w) of
        (Inl p, w') \<Rightarrow> (Inl p, w')
      | (Inr i, w') \<Rightarrow> (index_go qs i, w'))"

text \<open>
  The body of \<open>quoteHandler\<close> for a catalog \<open>qs\<close>. The request \<open>r\<close> is a parameter, as in
  the source, and is never read. A panic leaves the handler before anything is written.
\<close>

definition quoteHandlerWith ::
  "'g rand_source \<Rightarrow> string list \<Rightarrow> int \<Rightarrow> request \<Rightarrow> 'g world \<Rightarrow> response_writer
     \<Rightarrow> (panic + response_writer) \<times> 'g world" where
  "quoteHandlerWith L qs now r w rw =
     (case randomQuote L qs now w of
        (Inl p, w') \<Rightarrow> (Inl p, w')
      | (Inr q, w') \<Rightarrow>
          (Inr (Fprintf (Header_Set ''Content-Type'' ''application/json'' rw) quote_format [q]),
           w'))"

definition quoteHandler ::
  "'g rand_source \<Rightarrow> int \<Rightarrow> request \<Rightarrow> 'g world \<Rightarrow> response_writer
     \<Rightarrow> (panic + response_writer) \<times> 'g world" where
  "quoteHandler L = quoteHandlerWith L quotes"

subsection \<open>\<open>main\<close> and the serving of requests\<close>

datatype status = Serving | Exited

record 'g process =
  mux :: "(string \<times> (int \<Rightarrow> request \<Rightarrow> 'g world \<Rightarrow> response_writer
            \<Rightarrow> (panic + response_writer) \<times> 'g world)) list"
  stdout :: string
  state :: status

text \<open>
  \<open>main\<close> registers the handler on \<open>/\<close>, prints a line and calls \<open>ListenAndServe\<close>, which
  serves until the process is stopped, or returns an error at once when the port cannot be
  bound (\<open>bind_ok\<close> is false); \<open>main\<close> drops that error and returns.
\<close>

definition main :: "'g rand_source \<Rightarrow> bool \<Rightarrow> 'g world \<Rightarrow> 'g process \<times> 'g world" where
  "main L bind_ok w =
     (\<lparr>mux = [(''/'', quoteHandler L)],
       stdout = ''Starting Quote API server on port 8080...'' @ [CHR 0x0A],
       state = (if bind_ok then Serving else Exited)\<rparr>, w)"

text \<open>
  A run of the server on a sequence of requests, each with the clock reading of its
  handling: every request gets a fresh response writer; a panic of the handler is recovered
  by the server, which goes on serving.
\<close>

fun serve ::
  "(int \<Rightarrow> request \<Rightarrow> 'g world \<Rightarrow> response_writer \<Rightarrow> (panic + response_writer) \<times> 'g world)
     \<Rightarrow> (int \<times> request) list \<Rightarrow> 'g world \<Rightarrow> (panic + response_writer) list \<times> 'g world" where
  "serve h [] w = ([], w)"
| "serve h ((now, r) # rs) w =
     (case h now r w new_response of
        (out, w') \<Rightarrow> (case serve h rs w' of (outs, w'') \<Rightarrow> (out # outs, w'')))"

section \<open>JSON texts that are objects of strings\<close>

text \<open>
  The handler has no JSON code of its own; what a client reads from the body is fixed by
  RFC 8259. \<open>json_string_object s\<close> is the list of members of \<open>s\<close> when \<open>s\<close> is a JSON text
  that is an object all of whose member values are strings, and \<open>None\<close> for every other
  byte sequence. So ``the body parses as a JSON object with exactly one key, \<open>quote\<close>, whose
  value is the string \<open>v\<close>'' is \<open>json_string_object body = Some [(''quote'', v)]\<close>.
  Strings are decoded to bytes: an escape \<open>\uXXXX\<close> becomes the UTF-8 encoding of its code
  point (a surrogate pair one code point, a lone surrogate U+FFFD, as \<open>encoding/json\<close>
  does). A JSON text is UTF-8 (RFC 8259, section 8.1): bytes from \<open>0x80\<close> are accepted only
  as well-formed UTF-8 sequences (the Unicode standard, table 3-7), which are copied; a
  string with any other byte from \<open>0x80\<close> is not read.
\<close>

definition is_ws :: "char \<Rightarrow> bool" where
  "is_ws c = (c = CHR 0x20 \<or> c = CHR 0x09 \<or> c = CHR 0x0A \<or> c = CHR 0x0D)"

fun skip_ws :: "string \<Rightarrow> string" where
  "skip_ws [] = []"
| "skip_ws (c # cs) = (if is_ws c then skip_ws cs else c # cs)"

definition hex_val :: "char \<Rightarrow> nat option" where
  "hex_val c =
     (let n = (of_char c :: nat)
      in if 48 \<le> n \<and> n \<le> 57 then Some (n - 48)
         else if 65 \<le> n \<and> n \<le> 70 then Some (n - 55)
         else if 97 \<le> n \<and> n \<le> 102 then Some (n - 87)
         else None)"

fun hex4 :: "string \<Rightarrow> (nat \<times> string) option" where
  "hex4 (a # b # c # d # rest) =
     (case (hex_val a, hex_val b, hex_val c, hex_val d) of
        (Some w, Some x, Some y, Some z) \<Rightarrow> Some (((w * 16 + x) * 16 + y) * 16 + z, rest)
      | _ \<Rightarrow> None)"
| "hex4 _ = None"

definition utf8 :: "nat \<Rightarrow> string" where
  "utf8 n =
     (if n < 0x80 then [char_of n]
      else if n < 0x800 then [char_of (0xC0 + n div 64), char_of (0x80 + n mod 64)]
      else if n < 0x10000 then
        [char_of (0xE0 + n div 4096), char_of (0x80 + n div 64 mod 64), char_of (0x80 + n mod 64)]
      else
        [char_of (0xF0 + n div 262144), char_of (0x80 + n div 4096 mod 64),
         char_of (0x80 + n div 64 mod 64), char_of (0x80 + n mod 64)])"

definition unescape :: "char \<Rightarrow> char option" where
  "unescape e =
     (if e = CHR 0x22 then Some (CHR 0x22)
      else if e = CHR 0x5C then Some (CHR 0x5C)
      else if e = CHR ''/'' then Some (CHR ''/'')
      else if e = CHR ''b'' then Some (CHR 0x08)
      else if e = CHR ''f'' then Some (CHR 0x0C)
      else if e = CHR ''n'' then Some (CHR 0x0A)
      else if e = CHR ''r'' then Some (CHR 0x0D)
      else if e = CHR ''t'' then Some (CHR 0x09)
      else None)"

definition json_u :: "string \<Rightarrow> (string \<times> string) option" where
  "json_u s =
     (case hex4 s of
        None \<Rightarrow> None
      | Some (u, r) \<Rightarrow>
          if 0xD800 \<le> u \<and> u < 0xDC00 then
            (case r of
               b # v # r' \<Rightarrow>
                 if b = CHR 0x5C \<and> v = CHR ''u'' then
                   (case hex4 r' of
                      Some (l, r'') \<Rightarrow>
                        if 0xDC00 \<le> l \<and> l < 0xE000
                        then Some (utf8 (0x10000 + (u - 0xD800) * 1024 + (l - 0xDC00)), r'')
                        else Some (utf8 0xFFFD, r)
                    | None \<Rightarrow> Some (utf8 0xFFFD, r))
                 else Some (utf8 0xFFFD, r)
             | _ \<Rightarrow> Some (utf8 0xFFFD, r))
          else if 0xDC00 \<le> u \<and> u < 0xE000 then Some (utf8 0xFFFD, r)
          else Some (utf8 u, r))"

definition in_range :: "char \<Rightarrow> nat \<Rightarrow> nat \<Rightarrow> bool" where
  "in_range c lo hi = (lo \<le> (of_char c :: nat) \<and> (of_char c :: nat) \<le> hi)"

definition utf8_char :: "string \<Rightarrow> (string \<times> string) option" where
  "utf8_char s =
     (case s of
        [] \<Rightarrow> None
      | a # r1 \<Rightarrow>
          if in_range a 0xC2 0xDF then
            (case r1 of
               b # r2 \<Rightarrow> if in_range b 0x80 0xBF then Some ([a, b], r2) else None
             | _ \<Rightarrow> None)
          else if in_range a 0xE0 0xEF then
            (case r1 of
               b # c # r3 \<Rightarrow>
                 if in_range b (if a = CHR 0xE0 then 0xA0 else 0x80)
                      (if a = CHR 0xED then 0x9F else 0xBF)
                    \<and> in_range c 0x80 0xBF
                 then Some ([a, b, c], r3) else None
             | _ \<Rightarrow> None)
          else if in_range a 0xF0 0xF4 then
            (case r1 of
               b # c # d # r4 \<Rightarrow>
                 if in_range b (if a = CHR 0xF0 then 0x90 else 0x80)
                      (if a = CHR 0xF4 then 0x8F else 0xBF)
                    \<and> in_range c 0x80 0xBF \<and> in_range d 0x80 0xBF
                 then Some ([a, b, c, d], r4) else None
             | _ \<Rightarrow> None)
          else None)"

lemma utf8_char_length: "utf8_char s = Some (d, r) \<Longrightarrow> length r < length s"
  by (auto simp: utf8_char_def split: list.splits if_splits)

lemma hex4_length: "hex4 s = Some (u, r) \<Longrightarrow> length s = length r + 4"
  by (induction s rule: hex4.induct) (auto split: option.splits)

lemma json_u_length: "json_u s = Some (d, r) \<Longrightarrow> length r < length s"
  by (auto simp: json_u_def split: option.splits if_splits list.splits dest!: hex4_length)

function json_chars :: "string \<Rightarrow> (string \<times> string) option" where
  "json_chars [] = None"
| "json_chars (c # cs) =
     (if c = CHR 0x22 then Some ([], cs)
      else if c = CHR 0x5C then
        (case cs of
           [] \<Rightarrow> None
         | e # es \<Rightarrow>
             if e = CHR ''u'' then
               (case json_u es of
                  None \<Rightarrow> None
                | Some (d, r) \<Rightarrow>
                    (case json_chars r of None \<Rightarrow> None | Some (s, r') \<Rightarrow> Some (d @ s, r')))
             else
               (case unescape e of
                  None \<Rightarrow> None
                | Some d \<Rightarrow>
                    (case json_chars es of None \<Rightarrow> None | Some (s, r') \<Rightarrow> Some (d # s, r'))))
      else if (of_char c :: nat) < 0x20 then None
      else if (of_char c :: nat) < 0x80 then
        (case json_chars cs of None \<Rightarrow> None | Some (s, r') \<Rightarrow> Some (c # s, r'))
      else
        (case utf8_char (c # cs) of
           None \<Rightarrow> None
         | Some (u, r) \<Rightarrow>
             (case json_chars r of None \<Rightarrow> None | Some (s, r') \<Rightarrow> Some (u @ s, r'))))"
  by pat_completeness auto
termination
  by (relation "measure length") (auto dest: json_u_length utf8_char_length)

lemma json_chars_length: "json_chars s = Some (d, r) \<Longrightarrow> length r < length s"
  by (induction s arbitrary: d r rule: json_chars.induct)
     (fastforce split: if_splits list.splits option.splits
        dest: json_u_length utf8_char_length)+

definition json_string :: "string \<Rightarrow> (string \<times> string) option" where
  "json_string s =
     (case s of [] \<Rightarrow> None | c # cs \<Rightarrow> if c = CHR 0x22 then json_chars cs else None)"

definition json_member :: "string \<Rightarrow> ((string \<times> string) \<times> string) option" where
  "json_member s =
     (case json_string s of
        None \<Rightarrow> None
      | Some (k, r1) \<Rightarrow>
          (case skip_ws r1 of
             [] \<Rightarrow> None
           | c # r2 \<Rightarrow>
               if c = CHR '':'' then
                 (case json_string (skip_ws r2) of
                    None \<Rightarrow> None
                  | Some (v, r3) \<Rightarrow> Some ((k, v), r3))
               else None))"

lemma skip_ws_length: "length (skip_ws s) \<le> length s"
  by (induction s) auto

lemma json_string_length: "json_string s = Some (d, r) \<Longrightarrow> length r < length s"
  by (auto simp: json_string_def split: list.splits if_splits dest: json_chars_length)

lemma json_member_length: "json_member s = Some (m, r) \<Longrightarrow> length r < length s"
proof -
  assume a: "json_member s = Some (m, r)"
  then obtain k r1 where k: "json_string s = Some (k, r1)"
    by (auto simp: json_member_def split: option.splits)
  with a obtain c r2 where c: "skip_ws r1 = c # r2"
    by (auto simp: json_member_def split: option.splits list.splits)
  with a k obtain v where v: "json_string (skip_ws r2) = Some (v, r)"
    by (auto simp: json_member_def split: option.splits list.splits if_splits)
  have "length r < length (skip_ws r2)" using v by (rule json_string_length)
  also have "\<dots> \<le> length r2" by (rule skip_ws_length)
  also have "\<dots> < length (skip_ws r1)" using c by simp
  also have "\<dots> \<le> length r1" by (rule skip_ws_length)
  also have "\<dots> < length s" using k by (rule json_string_length)
  finally show ?thesis .
qed

function json_members :: "string \<Rightarrow> ((string \<times> string) list \<times> string) option" where
  "json_members s =
     (case json_member s of
        None \<Rightarrow> None
      | Some (m, r) \<Rightarrow>
          (case skip_ws r of
             [] \<Rightarrow> None
           | c # r' \<Rightarrow>
               if c = CHR ''}'' then Some ([m], r')
               else if c = CHR '','' then
                 (case json_members (skip_ws r') of
                    None \<Rightarrow> None
                  | Some (ms, r'') \<Rightarrow> Some (m # ms, r''))
               else None))"
  by pat_completeness auto
termination
proof (relation "measure length", goal_cases)
  case 1
  show ?case by simp
next
  case (2 s x2 m r c r')
  have "length (skip_ws r') \<le> length r'" by (rule skip_ws_length)
  also have "\<dots> < length (skip_ws r)" using 2 by simp
  also have "\<dots> \<le> length r" by (rule skip_ws_length)
  also have "\<dots> < length s" using 2 by (auto dest: json_member_length)
  finally show ?case by simp
qed

definition json_string_object :: "string \<Rightarrow> (string \<times> string) list option" where
  "json_string_object s =
     (case skip_ws s of
        [] \<Rightarrow> None
      | c # r \<Rightarrow>
          if c = CHR ''{'' then
            (case skip_ws r of
               [] \<Rightarrow> None
             | d # r' \<Rightarrow>
                 (case (if d = CHR ''}'' then Some ([], r') else json_members (d # r')) of
                    None \<Rightarrow> None
                  | Some (ms, rest) \<Rightarrow> if skip_ws rest = [] then Some ms else None))
          else None)"

text \<open>
  The bytes that RFC 8259 does not allow unescaped inside a string are the double quote, the
  backslash and the control characters below \<open>0x20\<close>. A text is plain when it has none
  of them.
\<close>

definition json_plain :: "string \<Rightarrow> bool" where
  "json_plain q =
     list_all (\<lambda>c. c \<noteq> CHR 0x22 \<and> c \<noteq> CHR 0x5C \<and> \<not> (of_char c :: nat) < 0x20) q"

definition ascii :: "string \<Rightarrow> bool" where
  "ascii q = list_all (\<lambda>c. (of_char c :: nat) < 0x80) q"

text \<open>The format of the handler with the text \<open>q\<close> put in place of \<open>%s\<close>, byte for byte.\<close>

definition raw_body :: "string \<Rightarrow> string" where
  \<open>raw_body q = ''{"quote": "'' @ q @ ''"}''\<close>

text \<open>What the handler leaves in a fresh response writer when it has chosen \<open>q\<close>.\<close>

definition response_for :: "string \<Rightarrow> response_writer" where
  "response_for q =
     Fprintf (Header_Set ''Content-Type'' ''application/json'' new_response) quote_format [q]"

text \<open>Sample inputs for evaluating the model.\<close>

definition get_root :: request where
  "get_root = \<lparr>req_method = ''GET'', req_path = ''/'', req_header = [], req_body = []\<rparr>"

definition post_other :: request where
  "post_other =
     \<lparr>req_method = ''POST'', req_path = ''/other'',
      req_header = [(''Accept'', ''text/plain'')], req_body = ''x=1''\<rparr>"

definition fresh_world :: "nat world" where
  "fresh_world = \<lparr>rng = 0, rand_calls = []\<rparr>"

section \<open>Properties of the library model and of the parser\<close>

lemma Sprintf_quote_format: "Sprintf quote_format [q] = raw_body q"
  by (simp add: quote_format_def raw_body_def)

lemma json_chars_plain:
  "json_plain q \<Longrightarrow> ascii q \<Longrightarrow> json_chars (q @ CHR 0x22 # rest) = Some (q, rest)"
  by (induction q) (simp_all add: json_plain_def ascii_def)

lemma json_string_plain:
  "json_plain q \<Longrightarrow> ascii q \<Longrightarrow>
     json_string (CHR 0x22 # q @ CHR 0x22 # rest) = Some (q, rest)"
  by (simp add: json_string_def json_chars_plain)

lemma json_plain_quote: "json_plain ''quote''"
  by (simp add: json_plain_def)

lemma ascii_quote: "ascii ''quote''"
  by (simp add: ascii_def)

lemma raw_body_shape:
  "raw_body q =
     CHR ''{'' # CHR 0x22 # ''quote'' @ CHR 0x22 # CHR '':'' # CHR '' '' # CHR 0x22 # q
       @ CHR 0x22 # ''}''"
  by (simp add: raw_body_def)

lemma json_member_raw:
  assumes "json_plain q" "ascii q"
  shows "json_member
           (CHR 0x22 # ''quote'' @ CHR 0x22 # CHR '':'' # CHR '' '' # CHR 0x22 # q
              @ CHR 0x22 # rest)
         = Some ((''quote'', q), rest)"
proof -
  have key: "json_string
               (CHR 0x22 # ''quote'' @ CHR 0x22 # CHR '':'' # CHR '' '' # CHR 0x22 # q
                  @ CHR 0x22 # rest)
             = Some (''quote'', CHR '':'' # CHR '' '' # CHR 0x22 # q @ CHR 0x22 # rest)"
    by (rule json_string_plain [OF json_plain_quote ascii_quote])
  have val: "json_string (CHR 0x22 # q @ CHR 0x22 # rest) = Some (q, rest)"
    by (rule json_string_plain [OF assms])
  show ?thesis
    unfolding json_member_def key by (simp add: is_ws_def val)
qed

lemma json_string_object_raw:
  assumes "json_plain q" "ascii q"
  shows "json_string_object (raw_body q) = Some [(''quote'', q)]"
proof -
  have m: "json_members
             (CHR 0x22 # ''quote'' @ CHR 0x22 # CHR '':'' # CHR '' '' # CHR 0x22 # q
                @ CHR 0x22 # ''}'')
           = Some ([(''quote'', q)], [])"
    using json_member_raw [OF assms, of "''}''"]
    by (subst json_members.simps) (simp add: is_ws_def)
  show ?thesis
    unfolding raw_body_shape json_string_object_def using m by (simp add: is_ws_def)
qed

lemma quotes_plain: "list_all json_plain quotes"
  by (simp add: quotes_def json_plain_def)

lemma quotes_ascii: "list_all ascii quotes"
  by (simp add: quotes_def ascii_def)

lemma quotes_distinct: "distinct quotes"
  by (simp add: quotes_def)

lemma length_quotes: "length quotes = 5"
  by (simp add: quotes_def)

lemma rand_ok_lcg: "rand_ok lcg"
  by (simp add: rand_ok_def lcg_def)

lemma randomQuote_eq:
  "randomQuote L qs now w =
     (if qs = [] then
        (Inl (InvalidArgument ''invalid argument to Intn''),
         w\<lparr>rng := seeded L now, rand_calls := rand_calls w @ [SeedCall now, IntnCall 0]\<rparr>)
      else
        (index_go qs (fst (intn L (seeded L now) (int (length qs)))),
         w\<lparr>rng := snd (intn L (seeded L now) (int (length qs))),
           rand_calls := rand_calls w @ [SeedCall now, IntnCall (int (length qs))]\<rparr>))"
  by (simp add: randomQuote_def rand_Intn_def rand_Seed_def Let_def split: prod.splits sum.splits)

lemma index_go_in_range:
  "0 \<le> i \<Longrightarrow> i < int (length xs) \<Longrightarrow> index_go xs i = Inr (xs ! nat i)"
  by (simp add: index_go_def)

lemma rand_ok_range:
  "rand_ok L \<Longrightarrow> 0 < n \<Longrightarrow> 0 \<le> fst (intn L g n) \<and> fst (intn L g n) < n"
  by (simp add: rand_ok_def)

lemma randomQuote_ok:
  assumes "rand_ok L" "qs \<noteq> []"
  shows "fst (randomQuote L qs now w) = Inr (qs ! nat (fst (intn L (seeded L now) (int (length qs)))))"
  using rand_ok_range [OF assms(1), of "int (length qs)" "seeded L now"] assms(2)
  by (simp add: randomQuote_eq index_go_in_range)

lemma quoteHandlerWith_fresh:
  "fst (quoteHandlerWith L qs now r w new_response) =
     (case fst (randomQuote L qs now w) of Inl p \<Rightarrow> Inl p | Inr q \<Rightarrow> Inr (response_for q))"
  by (simp add: quoteHandlerWith_def response_for_def split: prod.splits sum.splits)

lemma response_for_body: "body (response_for q) = raw_body q"
  by (simp add: response_for_def Fprintf_def Write_def Header_Set_def new_response_def
      Sprintf_quote_format)

lemma response_for_header:
  "wrote_header (response_for q) = Some (200, [''Content-Type'' \<mapsto> [''application/json'']])"
  by (simp add: response_for_def Fprintf_def Write_def Header_Set_def new_response_def)

lemma quoteHandlerWith_ok:
  assumes "rand_ok L" "qs \<noteq> []"
  shows "fst (quoteHandlerWith L qs now r w new_response) =
           Inr (response_for (qs ! nat (fst (intn L (seeded L now) (int (length qs))))))"
  by (simp add: quoteHandlerWith_fresh randomQuote_ok [OF assms])

lemma drawn_position:
  assumes "rand_ok L" "qs \<noteq> []"
  shows "nat (fst (intn L (seeded L now) (int (length qs)))) < length qs"
  using rand_ok_range [OF assms(1), of "int (length qs)" "seeded L now"] assms(2) by auto

lemma quoteHandlerWith_calls:
  "rand_calls (snd (quoteHandlerWith L qs now r w rw)) =
     rand_calls w @ [SeedCall now, IntnCall (int (length qs))]"
  by (simp add: quoteHandlerWith_def randomQuote_eq index_go_def split: prod.splits sum.splits)

lemma quoteHandlerWith_rng:
  "rng (snd (quoteHandlerWith L qs now r w rw)) =
     (if qs = [] then seeded L now else snd (intn L (seeded L now) (int (length qs))))"
  by (simp add: quoteHandlerWith_def randomQuote_eq index_go_def split: prod.splits sum.splits)

lemma quoteHandlerWith_no_panic:
  assumes "rand_ok L" "qs \<noteq> []"
  shows "fst (quoteHandlerWith L qs now r w rw) =
           Inr (Fprintf (Header_Set ''Content-Type'' ''application/json'' rw) quote_format
                  [qs ! nat (fst (intn L (seeded L now) (int (length qs))))])"
  using randomQuote_ok [OF assms, of now w]
  by (auto simp: quoteHandlerWith_def split: prod.splits sum.splits)

lemma randomQuote_member:
  "fst (randomQuote L qs now w) = Inr q \<Longrightarrow> q \<in> set qs"
  by (auto simp: randomQuote_eq index_go_def split: if_splits)

lemma rand_ok_draw_at: "0 \<le> d \<Longrightarrow> d < N \<Longrightarrow> rand_ok (draw_at N d)"
  by (simp add: rand_ok_def draw_at_def)

lemma randomQuote_draw_at:
  assumes "0 \<le> d" "d < int (length qs)"
  shows "fst (randomQuote (draw_at (int (length qs)) d) qs now w) = Inr (qs ! nat d)"
proof -
  have "qs \<noteq> []" using assms by auto
  then show ?thesis
    using assms by (simp add: randomQuote_eq draw_at_def index_go_in_range)
qed

lemma draws_selecting:
  "{d. 0 \<le> d \<and> d < int (length qs)
       \<and> fst (randomQuote (draw_at (int (length qs)) d) qs now w) = Inr q}
     = int ` {i. i < length qs \<and> qs ! i = q}"
proof (rule set_eqI, rule iffI)
  fix d
  assume "d \<in> {d. 0 \<le> d \<and> d < int (length qs)
                 \<and> fst (randomQuote (draw_at (int (length qs)) d) qs now w) = Inr q}"
  then have d: "0 \<le> d" "d < int (length qs)"
    and s: "fst (randomQuote (draw_at (int (length qs)) d) qs now w) = Inr q" by auto
  from s randomQuote_draw_at [OF d, of now w] have "qs ! nat d = q" by simp
  with d have "nat d \<in> {i. i < length qs \<and> qs ! i = q}" by auto
  moreover have "d = int (nat d)" using d by simp
  ultimately show "d \<in> int ` {i. i < length qs \<and> qs ! i = q}" by (rule rev_image_eqI)
next
  fix d
  assume "d \<in> int ` {i. i < length qs \<and> qs ! i = q}"
  then obtain i where i: "d = int i" "i < length qs" "qs ! i = q" by auto
  then have "0 \<le> d" "d < int (length qs)" by auto
  from randomQuote_draw_at [OF this, of now w] i
  show "d \<in> {d. 0 \<le> d \<and> d < int (length qs)
                 \<and> fst (randomQuote (draw_at (int (length qs)) d) qs now w) = Inr q}" by auto
qed

lemma positions_distinct:
  assumes "distinct qs" "q \<in> set qs"
  shows "\<exists>k. {i. i < length qs \<and> qs ! i = q} = {k}"
proof -
  from assms(2) obtain k where k: "k < length qs" "qs ! k = q"
    by (auto simp: in_set_conv_nth)
  have "{i. i < length qs \<and> qs ! i = q} = {k}"
  proof (rule set_eqI)
    fix i
    show "i \<in> {i. i < length qs \<and> qs ! i = q} \<longleftrightarrow> i \<in> {k}"
    proof (cases "i < length qs")
      case True
      from nth_eq_iff_index_eq [OF assms(1) True k(1)] k(2) True show ?thesis by auto
    next
      case False
      with k(1) show ?thesis by auto
    qed
  qed
  then show ?thesis ..
qed

lemma card_draws_selecting:
  assumes "distinct qs" "q \<in> set qs"
  shows "card {d. 0 \<le> d \<and> d < int (length qs)
                 \<and> fst (randomQuote (draw_at (int (length qs)) d) qs now w) = Inr q} = 1"
proof -
  from positions_distinct [OF assms] obtain k
    where k: "{i. i < length qs \<and> qs ! i = q} = {k}" ..
  have "card {d. 0 \<le> d \<and> d < int (length qs)
                 \<and> fst (randomQuote (draw_at (int (length qs)) d) qs now w) = Inr q}
        = card (int ` {i. i < length qs \<and> qs ! i = q})"
    by (rule arg_cong [OF draws_selecting])
  also have "\<dots> = card (int ` {k})" by (simp only: k)
  also have "\<dots> = 1" by simp
  finally show ?thesis .
qed


lemma serve_quoteHandler:
  assumes "rand_ok L"
  shows "fst (serve (quoteHandler L) reqs w)
         = map (\<lambda>(now, r). Inr (response_for (quotes ! nat (fst (intn L (seeded L now) 5))))) reqs"
proof (induction reqs arbitrary: w)
  case Nil
  show ?case by simp
next
  case (Cons a reqs)
  obtain now r where a: "a = (now, r)" by (cases a)
  have ne: "quotes \<noteq> []" using length_quotes by auto
  have h: "fst (quoteHandler L now r w new_response)
        = Inr (response_for (quotes ! nat (fst (intn L (seeded L now) 5))))"
    using quoteHandlerWith_ok [OF assms ne, of now r w]
    by (simp add: quoteHandler_def length_quotes)
  show ?case
    using h Cons.IH [of "snd (quoteHandler L now r w new_response)"]
    by (auto simp: a split: prod.splits)
qed

section \<open>The response to one request\<close>

text \<open>
  C1. For every request handed to \<open>quoteHandler\<close> with a fresh response writer, whatever the
  clock reading and the state of the generator, the handler commits status 200 with the
  header \<open>Content-Type: application/json\<close>, and the body it writes is a JSON object with
  exactly one member, whose key is \<open>quote\<close> and whose value is a string of the catalog
  \<open>quotes\<close>. The generator is assumed to keep the contract of \<open>rand.Intn\<close>.
\<close>

theorem quoteHandler_json_response:
  assumes "rand_ok L"
  shows "\<exists>rw q. fst (quoteHandler L now r w new_response) = Inr rw
           \<and> wrote_header rw = Some (200, [''Content-Type'' \<mapsto> [''application/json'']])
           \<and> json_string_object (body rw) = Some [(''quote'', q)]
           \<and> q \<in> set quotes"
proof -
  let ?i = "nat (fst (intn L (seeded L now) (int (length quotes))))"
  have ne: "quotes \<noteq> []" using length_quotes by auto
  have run: "fst (quoteHandler L now r w new_response) = Inr (response_for (quotes ! ?i))"
    unfolding quoteHandler_def by (rule quoteHandlerWith_ok [OF assms ne])
  have mem: "quotes ! ?i \<in> set quotes"
    using drawn_position [OF assms ne] by simp
  then have "json_plain (quotes ! ?i)" "ascii (quotes ! ?i)"
    using quotes_plain quotes_ascii by (simp_all add: list_all_iff)
  then have "json_string_object (body (response_for (quotes ! ?i))) = Some [(''quote'', quotes ! ?i)]"
    by (simp add: response_for_body json_string_object_raw)
  with run mem show ?thesis
    using response_for_header by blast
qed

theorem quoteHandler_json_response_witness:
  "rand_ok lcg \<and>
   (\<exists>rw q. fst (quoteHandler lcg 7 get_root fresh_world new_response) = Inr rw
      \<and> wrote_header rw = Some (200, [''Content-Type'' \<mapsto> [''application/json'']])
      \<and> json_string_object (body rw) = Some [(''quote'', q)]
      \<and> q \<in> set quotes)"
  using quoteHandler_json_response [OF rand_ok_lcg, of 7 get_root fresh_world] rand_ok_lcg
  by blast

text \<open>
  C10. None of the five strings of \<open>quotes\<close> has a double quote, a backslash or a control
  character. So every body that \<open>quoteHandler\<close> writes, although built by putting the text
  into the format unescaped, is a JSON object whose only member is \<open>quote\<close> with the chosen
  string as its value.
\<close>

theorem hardcoded_quotes_need_no_escaping:
  "list_all json_plain quotes
   \<and> (\<forall>rw'. fst (quoteHandler L now r w new_response) = Inr rw' \<longrightarrow>
         (\<exists>q\<in>set quotes. body rw' = raw_body q
            \<and> json_string_object (body rw') = Some [(''quote'', q)]))"
proof (intro conjI allI impI)
  show "list_all json_plain quotes" by (rule quotes_plain)
next
  fix rw'
  assume a: "fst (quoteHandler L now r w new_response) = Inr rw'"
  then obtain q where q: "fst (randomQuote L quotes now w) = Inr q" "rw' = response_for q"
    by (auto simp: quoteHandler_def quoteHandlerWith_fresh split: sum.splits)
  have m: "q \<in> set quotes" using q(1) by (rule randomQuote_member)
  then have "json_plain q" "ascii q"
    using quotes_plain quotes_ascii by (simp_all add: list_all_iff)
  then have "json_string_object (body rw') = Some [(''quote'', q)]"
    by (simp add: q(2) response_for_body json_string_object_raw)
  with m q(2) show "\<exists>q\<in>set quotes. body rw' = raw_body q
            \<and> json_string_object (body rw') = Some [(''quote'', q)]"
    using response_for_body by blast
qed

theorem hardcoded_quotes_need_no_escaping_witness:
  "\<exists>rw'. fst (quoteHandler lcg 7 get_root fresh_world new_response) = Inr rw'
     \<and> (\<exists>q\<in>set quotes. body rw' = raw_body q
           \<and> json_string_object (body rw') = Some [(''quote'', q)])"
proof -
  have "quotes \<noteq> []" using length_quotes by auto
  from quoteHandlerWith_ok [OF rand_ok_lcg this, of 7 get_root fresh_world]
  obtain rw' where rw: "fst (quoteHandler lcg 7 get_root fresh_world new_response) = Inr rw'"
    by (simp add: quoteHandler_def)
  with hardcoded_quotes_need_no_escaping [of lcg 7 get_root fresh_world]
  show ?thesis by blast
qed

section \<open>Escaping\<close>


section \<open>The random source\<close>

text \<open>
  One invocation of \<open>quoteHandler\<close> in a world whose generator was never touched makes two
  calls on the generator: \<open>rand.Seed\<close> with the clock reading, then \<open>rand.Intn(5)\<close>. The
  state it leaves is the one reached from the new seed.
\<close>

theorem handler_reseeds_counterexample:
  "rand_calls (snd (quoteHandler lcg 7 get_root fresh_world new_response))
     = [SeedCall 7, IntnCall 5]
   \<and> rng (snd (quoteHandler lcg 7 get_root fresh_world new_response))
     = snd (intn lcg (seeded lcg 7) 5)"
  by (simp add: quoteHandler_def quoteHandlerWith_calls quoteHandlerWith_rng length_quotes
      fresh_world_def) (simp add: quotes_def)

text \<open>
  C3, amended. Every invocation of the handler seeds the global generator with the clock
  reading and then draws once from it, so the state of the generator after the invocation is
  fixed by that clock reading and not by the state before; \<open>main\<close> makes no call on the
  generator and leaves the world as it found it.
\<close>

theorem handler_seeds_then_draws:
  "rand_calls (snd (quoteHandlerWith L qs now r w rw))
     = rand_calls w @ [SeedCall now, IntnCall (int (length qs))]
   \<and> rng (snd (quoteHandlerWith L qs now r w rw))
     = (if qs = [] then seeded L now else snd (intn L (seeded L now) (int (length qs))))
   \<and> snd (main L bind_ok w) = w"
  by (simp add: quoteHandlerWith_calls quoteHandlerWith_rng main_def)

text \<open>
  C4. For every generator that keeps the contract of \<open>rand.Intn\<close> and every non-empty
  catalog of length \<open>N\<close>, the entry selected is the one at the index that \<open>rand.Intn\<close> returned
  for the bound \<open>N\<close>. With that draw as the input (\<open>draw_at N d\<close>, for \<open>d\<close> in \<open>[0, N)\<close>), the
  draw \<open>d\<close> selects position \<open>d\<close>; the draws that select the string \<open>q\<close> are exactly the
  positions at which \<open>q\<close> stands, so each position is selected by exactly one of the \<open>N\<close>
  draws; and when the entries are distinct, each entry is selected by exactly one of the
  \<open>N\<close> draws, that is with probability \<open>1/N\<close> under a uniform draw.
\<close>

theorem selection_uniform:
  "(rand_ok L \<and> qs \<noteq> [] \<longrightarrow>
      fst (randomQuote L qs now w)
        = Inr (qs ! nat (fst (intn L (seeded L now) (int (length qs))))))
   \<and> (\<forall>d. 0 \<le> d \<and> d < int (length qs) \<longrightarrow>
         rand_ok (draw_at (int (length qs)) d)
         \<and> fst (randomQuote (draw_at (int (length qs)) d) qs now' u) = Inr (qs ! nat d))
   \<and> {d. 0 \<le> d \<and> d < int (length qs)
          \<and> fst (randomQuote (draw_at (int (length qs)) d) qs now' u) = Inr q}
       = int ` {i. i < length qs \<and> qs ! i = q}
   \<and> (distinct qs \<and> q \<in> set qs \<longrightarrow>
        card {d. 0 \<le> d \<and> d < int (length qs)
                 \<and> fst (randomQuote (draw_at (int (length qs)) d) qs now' u) = Inr q} = 1)"
proof (intro conjI impI allI)
  assume "rand_ok L \<and> qs \<noteq> []"
  then show "fst (randomQuote L qs now w)
        = Inr (qs ! nat (fst (intn L (seeded L now) (int (length qs)))))"
    using randomQuote_ok by blast
next
  fix d :: int
  assume "0 \<le> d \<and> d < int (length qs)"
  then show "rand_ok (draw_at (int (length qs)) d)"
    using rand_ok_draw_at by blast
next
  fix d :: int
  assume "0 \<le> d \<and> d < int (length qs)"
  then show "fst (randomQuote (draw_at (int (length qs)) d) qs now' u) = Inr (qs ! nat d)"
    using randomQuote_draw_at by blast
next
  show "{d. 0 \<le> d \<and> d < int (length qs)
          \<and> fst (randomQuote (draw_at (int (length qs)) d) qs now' u) = Inr q}
       = int ` {i. i < length qs \<and> qs ! i = q}"
    by (rule draws_selecting)
next
  assume a: "distinct qs \<and> q \<in> set qs"
  show "card {d. 0 \<le> d \<and> d < int (length qs)
                 \<and> fst (randomQuote (draw_at (int (length qs)) d) qs now' u) = Inr q} = 1"
    by (rule card_draws_selecting [OF conjunct1 [OF a] conjunct2 [OF a]])
qed

theorem selection_uniform_witness:
  "rand_ok lcg \<and> quotes \<noteq> [] \<and> distinct quotes \<and> quotes ! 2 \<in> set quotes
   \<and> fst (randomQuote lcg quotes 7 fresh_world) = Inr (quotes ! 2)
   \<and> rand_ok (draw_at 5 3)
   \<and> fst (randomQuote (draw_at (int (length quotes)) 3) quotes 7 \<lparr>rng = (), rand_calls = []\<rparr>)
       = Inr (quotes ! 3)
   \<and> card {d. 0 \<le> d \<and> d < int (length quotes)
              \<and> fst (randomQuote (draw_at (int (length quotes)) d) quotes 7
                       \<lparr>rng = (), rand_calls = []\<rparr>)
                  = Inr (quotes ! 2)} = 1"
proof -
  note u = selection_uniform [of lcg quotes 7 fresh_world 7
      "\<lparr>rng = (), rand_calls = []\<rparr>" "quotes ! 2"]
  have ne: "quotes \<noteq> []" using length_quotes by auto
  have m: "quotes ! 2 \<in> set quotes"
    by (rule nth_mem) (simp add: length_quotes)
  have a: "fst (randomQuote lcg quotes 7 fresh_world) = Inr (quotes ! 2)"
    using mp [OF u [THEN conjunct1] conjI [OF rand_ok_lcg ne]]
    by (simp add: length_quotes lcg_def)
  have r: "(0::int) \<le> 3 \<and> 3 < int (length quotes)"
    by (simp add: length_quotes)
  note d3 = mp [OF spec [OF u [THEN conjunct2, THEN conjunct1], of 3] r]
  have b: "rand_ok (draw_at 5 3)"
    using d3 [THEN conjunct1] by (simp add: length_quotes)
  have c: "fst (randomQuote (draw_at (int (length quotes)) 3) quotes 7
                  \<lparr>rng = (), rand_calls = []\<rparr>) = Inr (quotes ! 3)"
    using d3 [THEN conjunct2] by simp
  have e: "card {d. 0 \<le> d \<and> d < int (length quotes)
              \<and> fst (randomQuote (draw_at (int (length quotes)) d) quotes 7
                       \<lparr>rng = (), rand_calls = []\<rparr>)
                  = Inr (quotes ! 2)} = 1"
    by (rule mp [OF u [THEN conjunct2, THEN conjunct2, THEN conjunct2]
          conjI [OF quotes_distinct m]])
  from rand_ok_lcg ne quotes_distinct m a b c e show ?thesis by (intro conjI)
qed

text \<open>
  C5. When the catalog is not empty and \<open>rand.Intn\<close> keeps its contract, the index drawn
  by the handler lies in \<open>[0, len(quotes))\<close>, the indexing of the slice is in bounds, and the
  handler does not panic.
\<close>

theorem drawn_index_in_bounds:
  assumes "rand_ok L" "qs \<noteq> []"
  shows "\<exists>i. fst (rand_Intn L (int (length qs)) (rand_Seed L now w)) = Inr i
           \<and> 0 \<le> i \<and> i < int (length qs)
           \<and> index_go qs i = Inr (qs ! nat i)
           \<and> fst (randomQuote L qs now w) = Inr (qs ! nat i)
           \<and> (\<exists>rw'. fst (quoteHandlerWith L qs now r w rw) = Inr rw')"
proof -
  let ?i = "fst (intn L (seeded L now) (int (length qs)))"
  have r: "0 \<le> ?i \<and> ?i < int (length qs)"
    using rand_ok_range [OF assms(1), of "int (length qs)" "seeded L now"] assms(2) by simp
  have "fst (rand_Intn L (int (length qs)) (rand_Seed L now w)) = Inr ?i"
    using assms(2) by (simp add: rand_Intn_def rand_Seed_def Let_def split: prod.splits)
  moreover have "index_go qs ?i = Inr (qs ! nat ?i)"
    using r by (simp add: index_go_in_range)
  moreover have "fst (randomQuote L qs now w) = Inr (qs ! nat ?i)"
    by (rule randomQuote_ok [OF assms])
  moreover have "\<exists>rw'. fst (quoteHandlerWith L qs now r w rw) = Inr rw'"
    using quoteHandlerWith_no_panic [OF assms] by blast
  ultimately show ?thesis using r by blast
qed

theorem drawn_index_in_bounds_witness:
  "rand_ok lcg \<and> quotes \<noteq> [] \<and>
   (\<exists>i. fst (rand_Intn lcg (int (length quotes)) (rand_Seed lcg 7 fresh_world)) = Inr i
      \<and> 0 \<le> i \<and> i < int (length quotes)
      \<and> index_go quotes i = Inr (quotes ! nat i)
      \<and> fst (randomQuote lcg quotes 7 fresh_world) = Inr (quotes ! nat i)
      \<and> (\<exists>rw'. fst (quoteHandlerWith lcg quotes 7 get_root fresh_world new_response) = Inr rw'))"
proof -
  have ne: "quotes \<noteq> []" using length_quotes by auto
  from drawn_index_in_bounds [OF rand_ok_lcg ne, of 7 fresh_world get_root new_response]
    rand_ok_lcg ne
  show ?thesis by blast
qed

section \<open>The catalog over a run, and the request\<close>

text \<open>
  C6. The catalog is the literal \<open>quotes\<close>, of five strings, and no part of the world that
  the handler or \<open>main\<close> changes. Over every run of the server, from every world, the answer
  to each request is the entry of that same sequence at the position drawn for that request:
  every invocation reads the same catalog, in the same order.
\<close>

theorem every_invocation_reads_quotes:
  assumes "rand_ok L"
  shows "length quotes = 5
         \<and> fst (serve (quoteHandler L) reqs w)
           = map (\<lambda>(now, r). Inr (response_for (quotes ! nat (fst (intn L (seeded L now) 5)))))
               reqs"
  using serve_quoteHandler [OF assms] length_quotes by simp

theorem every_invocation_reads_quotes_witness:
  "rand_ok lcg \<and> length quotes = 5
   \<and> fst (serve (quoteHandler lcg) [(7, get_root), (8, post_other), (7, post_other)] fresh_world)
     = [Inr (response_for (quotes ! 2)), Inr (response_for (quotes ! 3)),
        Inr (response_for (quotes ! 2))]"
  using every_invocation_reads_quotes [OF rand_ok_lcg,
      of "[(7, get_root), (8, post_other), (7, post_other)]" fresh_world] rand_ok_lcg
  by (simp add: lcg_def)

text \<open>
  C7. The response does not depend on the request. For any two requests \<open>r1\<close> and \<open>r2\<close>
  (methods, paths, headers and bodies are arbitrary), any two worlds and any two clock
  readings that seed the generator to the same state, the handler produces the same
  response.
\<close>

theorem response_independent_of_request:
  assumes "seeded L t1 = seeded L t2"
  shows "fst (quoteHandlerWith L qs t1 r1 w1 rw) = fst (quoteHandlerWith L qs t2 r2 w2 rw)"
  using assms
  by (simp add: quoteHandlerWith_def randomQuote_eq split: prod.splits sum.splits)

theorem response_independent_of_request_witness:
  "seeded lcg 3 = seeded lcg (- 3) \<and>
   fst (quoteHandlerWith lcg quotes 3 get_root fresh_world new_response)
     = fst (quoteHandlerWith lcg quotes (- 3) post_other
              \<lparr>rng = 99, rand_calls = [SeedCall 1, IntnCall 5]\<rparr> new_response)"
proof -
  have s: "seeded lcg 3 = seeded lcg (- 3)" by (simp add: lcg_def)
  from response_independent_of_request [OF s] s show ?thesis by blast
qed

section \<open>Startup and failure\<close>




end
